theory Spec2Isabelle
  imports Main "HOL-Library.Sublist"
begin

section \<open>Regular expressions of the pattern tables\<close>

text \<open>
  The two scripts, \<^verbatim>\<open>update-imports-sprint23.py\<close> and \<^verbatim>\<open>update-imports-sprint24.py\<close>,
  hand every pattern of their table to \<^verbatim>\<open>re.sub(pattern, replacement, content)\<close>.
  Every pattern of the tables is a sequence of ordinary characters and of the bracketed
  set \<^verbatim>\<open>['\"]\<close>, so a pattern is a list of atoms: a literal character, or a set of
  characters. A Python \<^verbatim>\<open>str\<close> is modelled as a \<open>string\<close>: the UTF-8 bytes of its code
  points. All atoms of the tables are ASCII, and an ASCII byte never occurs inside a
  multi-byte UTF-8 sequence, so matching and substituting on bytes is matching and
  substituting on code points.
\<close>

datatype atom = Lit char | Cls "char list"

fun accepts :: "atom \<Rightarrow> char \<Rightarrow> bool" where
  "accepts (Lit a) c = (c = a)"
| "accepts (Cls as) c = (c \<in> set as)"

text \<open>\<open>match p s\<close>: the pattern matches at the start of \<open>s\<close>.\<close>

fun match :: "atom list \<Rightarrow> string \<Rightarrow> bool" where
  "match [] s = True"
| "match (a # as) [] = False"
| "match (a # as) (c # cs) = (accepts a c \<and> match as cs)"

text \<open>
  \<^verbatim>\<open>re.sub\<close> with a replacement that holds no backslash: scan from the left; where the
  pattern matches, emit the replacement and go on behind the match; elsewhere copy one
  character. The empty pattern matches before every character and at the end.
\<close>

fun re_sub :: "atom list \<Rightarrow> string \<Rightarrow> string \<Rightarrow> string" where
  "re_sub [] repl s = repl @ concat (map (\<lambda>c. c # repl) s)"
| "re_sub (a # as) repl [] = []"
| "re_sub (a # as) repl (c # cs) =
     (if match (a # as) (c # cs) then repl @ re_sub (a # as) repl (drop (length as) cs)
      else c # re_sub (a # as) repl cs)"

section \<open>The pattern tables\<close>

text \<open>The set \<^verbatim>\<open>['\"]\<close>: a single or a double quote.\<close>

definition quote :: atom where
  "quote = Cls [CHR 0x27, CHR 0x22]"

text \<open>\<^verbatim>\<open>r"from ['\"]@/components/ui/NAME['\"]"\<close>\<close>

definition legacy_import :: "string \<Rightarrow> atom list" where
  "legacy_import name = map Lit ''from '' @ [quote] @ map Lit (''@/components/ui/'' @ name) @ [quote]"

text \<open>\<^verbatim>\<open>"from '@jade/ui/components'"\<close>\<close>

definition consolidated :: string where
  "consolidated = ''from '@jade/ui/components'' @ [CHR 0x27]"

type_synonym table = "(atom list \<times> string) list"

text \<open>\<^verbatim>\<open>patterns\<close> of \<^verbatim>\<open>update-imports-sprint23.py\<close>.\<close>

definition patterns_sprint23 :: table where
  "patterns_sprint23 =
     [(legacy_import ''badge'', consolidated),
      (legacy_import ''alert'', consolidated),
      (legacy_import ''label'', consolidated),
      (legacy_import ''textarea'', consolidated),
      (legacy_import ''select'', consolidated)]"

text \<open>
  \<^verbatim>\<open>patterns\<close> of \<^verbatim>\<open>update-imports-sprint24.py\<close>. The last rule, for dialog, is
  \<^verbatim>\<open>(r"} from ['\"]@/components/ui/dialog['\"]", "} from '@jade/ui/components'")\<close>.
\<close>

definition patterns_sprint24 :: table where
  "patterns_sprint24 =
     [(legacy_import ''progress'', consolidated),
      (legacy_import ''switch'', consolidated),
      (legacy_import ''scroll-area'', consolidated),
      (legacy_import ''tabs'', consolidated),
      (legacy_import ''dropdown-menu'', consolidated),
      (map Lit ''} '' @ legacy_import ''dialog'', ''} '' @ consolidated)]"

text \<open>
  The loop \<^verbatim>\<open>for pattern, replacement in patterns: content = re.sub(pattern, replacement, content)\<close>
  of \<^verbatim>\<open>update_file\<close>.
\<close>

definition rewrite :: "table \<Rightarrow> string \<Rightarrow> string" where
  "rewrite patterns content =
     foldl (\<lambda>content (pattern, replacement). re_sub pattern replacement content) content patterns"

section \<open>Text files\<close>

text \<open>
  \<^verbatim>\<open>open(filepath, 'r', encoding='utf-8', errors='ignore')\<close> and \<^verbatim>\<open>f.read()\<close>: the bytes
  of the file are decoded as UTF-8, then the universal-newlines translation is applied.
  The decoder takes the error mode as \<^verbatim>\<open>open\<close> does; the scripts only use \<open>Ignore\<close>.
\<close>

datatype errors = Strict | Ignore

datatype exn =
    FileNotFoundError string
  | IsADirectoryError string
  | PermissionError string
  | UnicodeDecodeError
  | ValueError string

definition byte :: "char \<Rightarrow> nat" where
  "byte c = of_char c"

definition is_continuation :: "char \<Rightarrow> bool" where
  "is_continuation c = (0x80 \<le> byte c \<and> byte c < 0xC0)"

text \<open>
  One step of the UTF-8 decoder at the lead byte \<open>b\<close> with the bytes \<open>rest\<close> behind it:
  \<open>(True, k)\<close> is a well-formed sequence of \<open>b\<close> and \<open>k\<close> further bytes; \<open>(False, k)\<close> is
  an undecodable range of \<open>b\<close> and \<open>k\<close> further bytes (an invalid start byte, an invalid
  continuation byte, or the end of the data inside a sequence). Overlong forms,
  surrogates and code points above U+10FFFF are not well-formed.
\<close>

definition utf8_scan :: "char \<Rightarrow> string \<Rightarrow> bool \<times> nat" where
  "utf8_scan b rest =
     (let ch = byte b in
      if ch < 0x80 then (True, 0)
      else if ch < 0xC2 then (False, 0)
      else if ch < 0xE0 then
        (case rest of
           [] \<Rightarrow> (False, 0)
         | b2 # _ \<Rightarrow> if is_continuation b2 then (True, 1) else (False, 0))
      else if ch < 0xF0 then
        (case rest of
           [] \<Rightarrow> (False, 0)
         | b2 # r2 \<Rightarrow>
             if \<not> is_continuation b2 \<or> (if byte b2 < 0xA0 then ch = 0xE0 else ch = 0xED)
             then (False, 0)
             else (case r2 of
                     [] \<Rightarrow> (False, 1)
                   | b3 # _ \<Rightarrow> if is_continuation b3 then (True, 2) else (False, 1)))
      else if ch < 0xF5 then
        (case rest of
           [] \<Rightarrow> (False, 0)
         | b2 # r2 \<Rightarrow>
             if \<not> is_continuation b2 \<or> (if byte b2 < 0x90 then ch = 0xF0 else ch = 0xF4)
             then (False, 0)
             else (case r2 of
                     [] \<Rightarrow> (False, 1)
                   | b3 # r3 \<Rightarrow>
                       if \<not> is_continuation b3 then (False, 1)
                       else (case r3 of
                               [] \<Rightarrow> (False, 2)
                             | b4 # _ \<Rightarrow> if is_continuation b4 then (True, 3) else (False, 2))))
      else (False, 0))"

text \<open>
  The decoder: a well-formed sequence is kept; an undecodable range raises under
  \<open>Strict\<close> and is skipped under \<open>Ignore\<close>.
\<close>

fun utf8_decode :: "errors \<Rightarrow> string \<Rightarrow> exn + string" where
  "utf8_decode errs [] = Inr []"
| "utf8_decode errs (b # bs) =
     (case utf8_scan b bs of
        (True, k) \<Rightarrow>
          (case utf8_decode errs (drop k bs) of
             Inl e \<Rightarrow> Inl e
           | Inr text \<Rightarrow> Inr (b # take k bs @ text))
      | (False, k) \<Rightarrow>
          (case errs of
             Strict \<Rightarrow> Inl UnicodeDecodeError
           | Ignore \<Rightarrow> utf8_decode errs (drop k bs)))"

text \<open>
  Reading in text mode with \<^verbatim>\<open>newline=None\<close>: \<^verbatim>\<open>\r\n\<close> and a lone \<^verbatim>\<open>\r\<close> become
  \<^verbatim>\<open>\n\<close>.
\<close>

fun universal_newlines :: "string \<Rightarrow> string" where
  "universal_newlines [] = []"
| "universal_newlines [c] = (if c = CHR 0x0D then [CHR 0x0A] else [c])"
| "universal_newlines (c # d # cs) =
     (if c = CHR 0x0D \<and> d = CHR 0x0A then CHR 0x0A # universal_newlines cs
      else if c = CHR 0x0D then CHR 0x0A # universal_newlines (d # cs)
      else c # universal_newlines (d # cs))"

definition read_text :: "errors \<Rightarrow> string \<Rightarrow> exn + string" where
  "read_text errs raw =
     (case utf8_decode errs raw of
        Inl e \<Rightarrow> Inl e
      | Inr text \<Rightarrow> Inr (universal_newlines text))"

text \<open>
  Writing in text mode with \<^verbatim>\<open>newline=None\<close>: every \<^verbatim>\<open>\n\<close> becomes \<^verbatim>\<open>os.linesep\<close>;
  the text, already UTF-8, is stored as it is.
\<close>

definition encode_text :: "string \<Rightarrow> string \<Rightarrow> string" where
  "encode_text sep content = concat (map (\<lambda>c. if c = CHR 0x0A then sep else [c]) content)"

section \<open>The file system and the console\<close>

text \<open>
  A path is the list of its components (\<^verbatim>\<open>Path.parts\<close>). A node is a regular file,
  with its bytes and whether the process may read and write it, or a directory.
  \<open>walk\<close> lists the paths below the source directory, relative to it, in the order in
  which the operating system enumerates them; \<open>syscalls\<close> records every \<^verbatim>\<open>open\<close>.
  The failures of \<^verbatim>\<open>open\<close> in the model are a missing path, a directory and a refused
  permission; paths are printed with \<^verbatim>\<open>/\<close> between their components.
\<close>

type_synonym path = "string list"

datatype node = Regular string bool bool | Directory

datatype syscall = OpenRead path | OpenWrite path

record world =
  files :: "path \<Rightarrow> node option"
  walk :: "path list"
  linesep :: string
  stdout :: "string list"
  syscalls :: "syscall list"

fun str_path :: "path \<Rightarrow> string" where
  "str_path [] = ''.''"
| "str_path [x] = x"
| "str_path (x # y # ys) = x @ ''/'' @ str_path (y # ys)"

text \<open>\<^verbatim>\<open>str(e)\<close> for the exceptions of the model.\<close>

fun str_exn :: "exn \<Rightarrow> string" where
  "str_exn (FileNotFoundError f) = ''[Errno 2] No such file or directory: '' @ [CHR 0x27] @ f @ [CHR 0x27]"
| "str_exn (IsADirectoryError f) = ''[Errno 21] Is a directory: '' @ [CHR 0x27] @ f @ [CHR 0x27]"
| "str_exn (PermissionError f) = ''[Errno 13] Permission denied: '' @ [CHR 0x27] @ f @ [CHR 0x27]"
| "str_exn UnicodeDecodeError = [CHR 0x27] @ ''utf-8'' @ [CHR 0x27] @ '' codec can'' @ [CHR 0x27] @ ''t decode bytes''"
| "str_exn (ValueError m) = m"

definition print :: "world \<Rightarrow> string \<Rightarrow> world" where
  "print w line = w\<lparr>stdout := stdout w @ [line]\<rparr>"

definition open_read :: "world \<Rightarrow> path \<Rightarrow> world \<times> (exn + string)" where
  "open_read w p =
     (w\<lparr>syscalls := syscalls w @ [OpenRead p]\<rparr>,
      case files w p of
        None \<Rightarrow> Inl (FileNotFoundError (str_path p))
      | Some Directory \<Rightarrow> Inl (IsADirectoryError (str_path p))
      | Some (Regular raw readable writable) \<Rightarrow>
          if readable then Inr raw else Inl (PermissionError (str_path p)))"

text \<open>
  \<^verbatim>\<open>with open(filepath, 'w', encoding='utf-8') as f: f.write(content)\<close>: when the file
  may be opened for writing, its bytes are replaced by the encoded content; a missing
  file is created.
\<close>

definition write_text :: "world \<Rightarrow> path \<Rightarrow> string \<Rightarrow> world \<times> (exn + unit)" where
  "write_text w p content =
     (let w' = w\<lparr>syscalls := syscalls w @ [OpenWrite p]\<rparr>;
          raw' = encode_text (linesep w) content
      in case files w p of
           None \<Rightarrow> (w'\<lparr>files := (files w)(p \<mapsto> Regular raw' True True)\<rparr>, Inr ())
         | Some Directory \<Rightarrow> (w', Inl (IsADirectoryError (str_path p)))
         | Some (Regular raw readable writable) \<Rightarrow>
             if writable then (w'\<lparr>files := (files w)(p \<mapsto> Regular raw' readable writable)\<rparr>, Inr ())
             else (w', Inl (PermissionError (str_path p))))"

section \<open>update_file\<close>

text \<open>
  The two scripts' \<^verbatim>\<open>update_file\<close> are the same text; they differ in the module-level
  table \<^verbatim>\<open>patterns\<close>, which is the first argument here. \<open>try_update_file\<close> is the body
  of the \<^verbatim>\<open>try\<close>: it returns the exception raised, or the value returned.
\<close>

definition try_update_file :: "table \<Rightarrow> world \<Rightarrow> path \<Rightarrow> world \<times> (exn + bool)" where
  "try_update_file patterns w filepath =
     (case open_read w filepath of
        (w1, Inl e) \<Rightarrow> (w1, Inl e)
      | (w1, Inr raw) \<Rightarrow>
          (case read_text Ignore raw of
             Inl e \<Rightarrow> (w1, Inl e)
           | Inr original_content \<Rightarrow>
               (let content = rewrite patterns original_content in
                if content \<noteq> original_content then
                  (case write_text w1 filepath content of
                     (w2, Inl e) \<Rightarrow> (w2, Inl e)
                   | (w2, Inr u) \<Rightarrow> (w2, Inr True))
                else (w1, Inr False))))"

text \<open>
  \<^verbatim>\<open>except Exception as e: print(f"Error processing {filepath}: {e}"); return False\<close>.
  Every exception of the model is an \<^verbatim>\<open>Exception\<close>.
\<close>

definition update_file :: "table \<Rightarrow> world \<Rightarrow> path \<Rightarrow> world \<times> bool" where
  "update_file patterns w filepath =
     (case try_update_file patterns w filepath of
        (w', Inr changed) \<Rightarrow> (w', changed)
      | (w', Inl e) \<Rightarrow>
          (print w' (''Error processing '' @ str_path filepath @ '': '' @ str_exn e), False))"

section \<open>main\<close>

definition src_dir :: path where
  "src_dir = [''apps'', ''curated'', ''marketplace-frontend'', ''src'']"












section \<open>Auxiliary notions for the proofs\<close>

text \<open>\<open>occurs p s\<close>: the pattern matches somewhere in \<open>s\<close> (\<^verbatim>\<open>re.search\<close> finds a match).\<close>

fun occurs :: "atom list \<Rightarrow> string \<Rightarrow> bool" where
  "occurs p [] = match p []"
| "occurs p (c # cs) = (match p (c # cs) \<or> occurs p cs)"

text \<open>
  \<open>clash p x\<close>: the pattern cannot match any string that starts with \<open>x\<close>, because an
  atom rejects a character of \<open>x\<close>.
\<close>

fun clash :: "atom list \<Rightarrow> string \<Rightarrow> bool" where
  "clash [] x = False"
| "clash (a # as) [] = False"
| "clash (a # as) (c # cs) = (\<not> accepts a c \<or> clash as cs)"

text \<open>The non-empty suffixes of a list.\<close>

fun tails1 :: "'a list \<Rightarrow> 'a list list" where
  "tails1 [] = []"
| "tails1 (x # xs) = (x # xs) # tails1 xs"

text \<open>
  A block of text \<open>b\<close> is inert for a pattern when, whatever stands around the block, no
  match of the pattern overlaps it: no suffix of the pattern can match from the start of
  the block on, and the pattern cannot match from any position of the block on.
\<close>

definition inert :: "atom list \<Rightarrow> string \<Rightarrow> bool" where
  "inert p b = (list_all (\<lambda>p2. clash p2 b) (tails1 p) \<and> list_all (\<lambda>b2. clash p b2) (tails1 b))"

text \<open>A table is compatible when every replacement is inert for every pattern.\<close>

definition compatible :: "table \<Rightarrow> bool" where
  "compatible patterns =
     list_all (\<lambda>p. p \<noteq> [] \<and> list_all (\<lambda>r. inert p r) (map snd patterns)) (map fst patterns)"

text \<open>
  \<open>carry patterns b\<close> follows a block through the rules of a table: a rule for which the
  block is inert leaves it; a rule whose pattern matches exactly the block, and no
  proper suffix of which can match from the start of the block on, turns it into the
  replacement.
\<close>

fun carry :: "table \<Rightarrow> string \<Rightarrow> string option" where
  "carry [] b = Some b"
| "carry ((p, r) # ps) b =
     (if p = [] then None
      else if inert p b then carry ps b
      else if match p b \<and> length b = length p \<and> list_all (\<lambda>p2. clash p2 b) (tails1 (tl p))
        then carry ps r
      else None)"

text \<open>The component names of the two tables.\<close>

definition component_names :: "string list" where
  "component_names =
     [''badge'', ''alert'', ''label'', ''textarea'', ''select'',
      ''progress'', ''switch'', ''scroll-area'', ''tabs'', ''dropdown-menu'', ''dialog'']"

text \<open>
  The text \<^verbatim>\<open>from 'MODULE'\<close> of an import of a module below \<^verbatim>\<open>@/components/ui/\<close>, with
  its opening and closing quote characters.
\<close>

definition import_head :: "char \<Rightarrow> string \<Rightarrow> string" where
  "import_head q1 module = ''from '' @ [q1] @ ''@/components/ui/'' @ module"

definition import_text :: "char \<Rightarrow> string \<Rightarrow> char \<Rightarrow> string" where
  "import_text q1 module q2 = import_head q1 module @ [q2]"

definition quotes :: "char list" where
  "quotes = [CHR 0x27, CHR 0x22]"

text \<open>
  The characters of a module path, for the purposes of the tables: not a space and not a
  quote character.
\<close>

definition module_char :: "char \<Rightarrow> bool" where
  "module_char c = (c \<noteq> CHR '' '' \<and> c \<noteq> CHR 0x27 \<and> c \<noteq> CHR 0x22)"

fun rejects_module_chars :: "atom \<Rightarrow> bool" where
  "rejects_module_chars (Lit c) = (\<not> module_char c)"
| "rejects_module_chars (Cls cs) = list_all (\<lambda>c. \<not> module_char c) cs"

text \<open>
  \<open>clash_ext p h\<close>: the pattern cannot match a string that starts with \<open>h\<close> and goes on
  with a character of a module path.
\<close>

fun clash_ext :: "atom list \<Rightarrow> string \<Rightarrow> bool" where
  "clash_ext [] h = False"
| "clash_ext (a # as) [] = rejects_module_chars a"
| "clash_ext (a # as) (c # cs) = (\<not> accepts a c \<or> clash_ext as cs)"

text \<open>
  \<open>guard p h\<close>: with a character of a module path behind the text \<open>h\<close>, no suffix of the
  pattern can match from the start of \<open>h\<close> on, and the pattern cannot match from any
  position of \<open>h\<close> on.
\<close>

definition guard :: "atom list \<Rightarrow> string \<Rightarrow> bool" where
  "guard p h =
     (list_all (\<lambda>p2. clash_ext p2 h) (tails1 p) \<and> list_all (\<lambda>h2. clash_ext p h2) (tails1 h))"

text \<open>
  \<open>spaced p\<close>: the pattern asks for a space before it reaches an atom that accepts a
  quote character.
\<close>

fun spaced :: "atom list \<Rightarrow> bool" where
  "spaced (Lit c # as) = (c = CHR '' '' \<or> (c \<noteq> CHR 0x27 \<and> c \<noteq> CHR 0x22 \<and> spaced as))"
| "spaced p = False"

text \<open>
  The line that \<^verbatim>\<open>update_file\<close> prints for an exception.
\<close>

definition error_line :: "path \<Rightarrow> exn \<Rightarrow> string" where
  "error_line p e = ''Error processing '' @ str_path p @ '': '' @ str_exn e"

text \<open>
  What \<^verbatim>\<open>update_file\<close> does to one path: the node it leaves there, the value it returns,
  the lines it prints and the files it opens.
\<close>

record effect =
  node_after :: "node option"
  changed :: bool
  messages :: "string list"
  opens :: "syscall list"

text \<open>
  The effect of \<^verbatim>\<open>update_file\<close> on a path, from the node at the path alone.
\<close>

definition effect_on :: "table \<Rightarrow> string \<Rightarrow> path \<Rightarrow> node option \<Rightarrow> effect" where
  "effect_on patterns sep p n =
     (case n of
        None \<Rightarrow>
          \<lparr>node_after = n, changed = False,
           messages = [error_line p (FileNotFoundError (str_path p))], opens = [OpenRead p]\<rparr>
      | Some Directory \<Rightarrow>
          \<lparr>node_after = n, changed = False,
           messages = [error_line p (IsADirectoryError (str_path p))], opens = [OpenRead p]\<rparr>
      | Some (Regular raw readable writable) \<Rightarrow>
          if \<not> readable then
            \<lparr>node_after = n, changed = False,
             messages = [error_line p (PermissionError (str_path p))], opens = [OpenRead p]\<rparr>
          else
            (case read_text Ignore raw of
               Inl e \<Rightarrow>
                 \<lparr>node_after = n, changed = False, messages = [error_line p e], opens = [OpenRead p]\<rparr>
             | Inr content \<Rightarrow>
                 if rewrite patterns content = content then
                   \<lparr>node_after = n, changed = False, messages = [], opens = [OpenRead p]\<rparr>
                 else if writable then
                   \<lparr>node_after = Some (Regular (encode_text sep (rewrite patterns content)) readable writable),
                    changed = True, messages = [], opens = [OpenRead p, OpenWrite p]\<rparr>
                 else
                   \<lparr>node_after = n, changed = False,
                    messages = [error_line p (PermissionError (str_path p))],
                    opens = [OpenRead p, OpenWrite p]\<rparr>))"

definition effect_of :: "table \<Rightarrow> world \<Rightarrow> path \<Rightarrow> effect" where
  "effect_of patterns w p = effect_on patterns (linesep w) p (files w p)"

definition apply_effect :: "world \<Rightarrow> path \<Rightarrow> effect \<Rightarrow> world" where
  "apply_effect w p e =
     w\<lparr>files := (files w)(p := node_after e), stdout := stdout w @ messages e,
       syscalls := syscalls w @ opens e\<rparr>"





text \<open>
  What \<^verbatim>\<open>f.read()\<close> returns in \<^verbatim>\<open>update_file\<close>, or the exception that \<^verbatim>\<open>open\<close> or
  \<^verbatim>\<open>read\<close> raises.
\<close>

definition read_content :: "world \<Rightarrow> path \<Rightarrow> exn + string" where
  "read_content w p =
     (case snd (open_read w p) of Inl e \<Rightarrow> Inl e | Inr raw \<Rightarrow> read_text Ignore raw)"

text \<open>
  The files opened between two worlds.
\<close>

definition issued :: "world \<Rightarrow> world \<Rightarrow> syscall list" where
  "issued w w' = drop (length (syscalls w)) (syscalls w')"

text \<open>
  Example worlds. A source file with a badge import and three bytes that are not UTF-8.
\<close>

definition card_path :: path where
  "card_path = src_dir @ [''components'', ''Card.tsx'']"

definition card_raw :: string where
  "card_raw = ''import { Badge } '' @ import_text (CHR 0x27) ''badge'' (CHR 0x27)
                @ [CHR '';'', CHR 0xFF, CHR 0xE2, CHR 0x82] @ '' // card''"

definition card_world :: world where
  "card_world =
     \<lparr>files = [src_dir \<mapsto> Directory, card_path \<mapsto> Regular card_raw True True],
      walk = [[''components'', ''Card.tsx'']], linesep = [CHR 0x0A], stdout = [], syscalls = []\<rparr>"









text \<open>
  The component names of the sprint-2.3 table.
\<close>

definition names_sprint23 :: "string list" where
  "names_sprint23 = [''badge'', ''alert'', ''label'', ''textarea'', ''select'']"

text \<open>
  A source file with a badge import and a select import, beside a file that only holds
  an import of another module.
\<close>

definition form_path :: path where
  "form_path = src_dir @ [''forms'', ''Profile.tsx'']"

definition form_raw :: string where
  "form_raw = ''import { Badge } '' @ import_text (CHR 0x27) ''badge'' (CHR 0x27) @ [CHR '';'', CHR 0x0A]
               @ ''import { Select } '' @ import_text (CHR 0x22) ''select'' (CHR 0x22) @ [CHR '';'', CHR 0x0A]"

definition other_path :: path where
  "other_path = src_dir @ [''forms'', ''Other.ts'']"

definition form_world :: world where
  "form_world =
     \<lparr>files = [src_dir \<mapsto> Directory, form_path \<mapsto> Regular form_raw True True,
               other_path
                 \<mapsto> Regular (import_text (CHR 0x27) ''unrelated-thing'' (CHR 0x27)) True True],
      walk = [[''forms''], [''forms'', ''Other.ts''], [''forms'', ''Profile.tsx'']],
      linesep = [CHR 0x0A], stdout = [], syscalls = []\<rparr>"

text \<open>
  No replacement of the table is longer than its pattern.
\<close>

definition shrinking :: "table \<Rightarrow> bool" where
  "shrinking patterns = list_all (\<lambda>(p, r). p \<noteq> [] \<and> length r \<le> length p) patterns"

text \<open>
  \<open>only_quotes a\<close>: the atom accepts nothing but quote characters. \<open>stops_at_quote p h\<close>:
  the pattern cannot match a string that starts with \<open>h\<close> and goes on with a character
  that is no quote.
\<close>

fun only_quotes :: "atom \<Rightarrow> bool" where
  "only_quotes (Lit c) = (c \<in> set quotes)"
| "only_quotes (Cls cs) = list_all (\<lambda>c. c \<in> set quotes) cs"

fun stops_at_quote :: "atom list \<Rightarrow> string \<Rightarrow> bool" where
  "stops_at_quote [] h = False"
| "stops_at_quote (a # as) [] = only_quotes a"
| "stops_at_quote (a # as) (c # cs) = (\<not> accepts a c \<or> stops_at_quote as cs)"

section \<open>Matching and substitution\<close>

lemma clash_no_match: "clash p x \<Longrightarrow> \<not> match p (x @ t)"
  by (induction p x rule: clash.induct) auto

lemma clash_append: "clash p x \<Longrightarrow> clash p (x @ y)"
  by (induction p x rule: clash.induct) auto

lemma match_append: "match p x \<Longrightarrow> match p (x @ t)"
  by (induction p x rule: match.induct) auto

lemma match_length: "match p x \<Longrightarrow> length p \<le> length x"
  by (induction p x rule: match.induct) auto

lemma match_split:
  "match p (x @ t) \<Longrightarrow> match p x \<or> (length x < length p \<and> match (drop (length x) p) t)"
  by (induction p x rule: match.induct) auto

lemma drop_in_tails1: "n < length p \<Longrightarrow> drop n p \<in> set (tails1 p)"
proof (induction p arbitrary: n)
  case Nil
  then show ?case by simp
next
  case (Cons a p)
  then show ?case by (cases n) simp_all
qed

lemma tails1_append: "tails1 (x @ y) = map (\<lambda>h. h @ y) (tails1 x) @ tails1 y"
  by (induction x) simp_all

lemma re_sub_hit:
  "p \<noteq> [] \<Longrightarrow> match p s \<Longrightarrow> re_sub p r s = r @ re_sub p r (drop (length p) s)"
  by (cases p; cases s) simp_all

lemma re_sub_miss:
  "p \<noteq> [] \<Longrightarrow> \<not> match p (c # cs) \<Longrightarrow> re_sub p r (c # cs) = c # re_sub p r cs"
  by (cases p) auto

lemma re_sub_nil: "p \<noteq> [] \<Longrightarrow> re_sub p r [] = []"
  by (cases p) simp_all

text \<open>The induction that follows the scan of \<open>re_sub\<close> for a non-empty pattern.\<close>

lemma scan_induct [consumes 1, case_names Nil Hit Miss]:
  assumes "p \<noteq> []"
    and "P []"
    and "\<And>s. s \<noteq> [] \<Longrightarrow> match p s \<Longrightarrow> P (drop (length p) s) \<Longrightarrow> P s"
    and "\<And>c cs. \<not> match p (c # cs) \<Longrightarrow> P cs \<Longrightarrow> P (c # cs)"
  shows "P s"
proof (induction s rule: length_induct)
  case (1 s)
  show ?case
  proof (cases s)
    case Nil
    with assms(2) show ?thesis by simp
  next
    case (Cons c cs)
    show ?thesis
    proof (cases "match p s")
      case True
      from assms(1) Cons have "length (drop (length p) s) < length s" by (cases p) simp_all
      with 1 have "P (drop (length p) s)" by blast
      with assms(3) True Cons show ?thesis by blast
    next
      case False
      from 1 Cons have "P cs" by simp
      with assms(4) False Cons show ?thesis by blast
    qed
  qed
qed

subsection \<open>No match is created by a substitution\<close>

lemma match_through_sub:
  assumes "p \<noteq> []"
  shows "\<forall>q2 \<in> set (tails1 q). clash q2 r \<Longrightarrow> match q (re_sub p r s) \<Longrightarrow> match q s"
  using assms
proof (induction s arbitrary: q rule: scan_induct)
  case Nil
  with assms show ?case by (simp add: re_sub_nil)
next
  case (Hit s)
  show ?case
  proof (cases q)
    case Nil
    then show ?thesis by simp
  next
    case (Cons b bs)
    with Hit.prems(1) have "clash q r" by simp
    then have "\<not> match q (r @ re_sub p r (drop (length p) s))"
      by (rule clash_no_match)
    with Hit.prems(2) Hit.hyps(2) assms show ?thesis by (simp add: re_sub_hit)
  qed
next
  case (Miss c cs)
  show ?case
  proof (cases q)
    case Nil
    then show ?thesis by simp
  next
    case (Cons b bs)
    from Miss.prems(2) Miss.hyps(1) assms Cons
    have acc: "accepts b c" and m: "match bs (re_sub p r cs)"
      by (simp_all add: re_sub_miss)
    from Miss.prems(1) Cons have "\<forall>q2 \<in> set (tails1 bs). clash q2 r" by simp
    from Miss.IH[OF this m] acc Cons show ?thesis by simp
  qed
qed

lemma occurs_append:
  "occurs q (x @ t) = ((\<exists>x2 \<in> set (tails1 x). match q (x2 @ t)) \<or> occurs q t)"
  by (induction x) auto

lemma occurs_suffix: "occurs q s \<longleftrightarrow> (\<exists>t. suffix t s \<and> match q t)"
proof (induction s)
  case Nil
  then show ?case by simp
next
  case (Cons c cs)
  then show ?case by (auto simp add: suffix_Cons)
qed

lemma inert_front: "inert q r \<Longrightarrow> \<forall>q2 \<in> set (tails1 q). clash q2 r"
  by (simp add: inert_def list_all_iff)

lemma inert_inside: "inert q r \<Longrightarrow> \<forall>r2 \<in> set (tails1 r). clash q r2"
  by (simp add: inert_def list_all_iff)

lemma sub_free:
  assumes p: "p \<noteq> []" and q: "q \<noteq> []" and i: "inert q r"
  shows "(\<forall>t. suffix t s \<and> match q t \<longrightarrow> match p t) \<Longrightarrow> \<not> occurs q (re_sub p r s)"
  using p
proof (induction s rule: scan_induct)
  case Nil
  with q p show ?case by (cases q) (simp_all add: re_sub_nil)
next
  case (Hit s)
  have "\<forall>t. suffix t (drop (length p) s) \<and> match q t \<longrightarrow> match p t"
    using Hit.prems by (meson suffix_drop suffix_order.trans)
  with Hit.IH have "\<not> occurs q (re_sub p r (drop (length p) s))" by simp
  moreover have "\<not> (\<exists>x2 \<in> set (tails1 r). match q (x2 @ re_sub p r (drop (length p) s)))"
    using inert_inside[OF i] clash_no_match by blast
  ultimately show ?case using Hit.hyps p by (simp add: re_sub_hit occurs_append)
next
  case (Miss c cs)
  have "\<forall>t. suffix t cs \<and> match q t \<longrightarrow> match p t"
    using Miss.prems by (simp add: suffix_Cons)
  with Miss.IH have "\<not> occurs q (re_sub p r cs)" by simp
  moreover have "\<not> match q (c # cs)" using Miss.prems Miss.hyps by auto
  then have "\<not> match q (c # re_sub p r cs)"
    using match_through_sub[OF p inert_front[OF i], of "c # cs"] Miss.hyps p
    by (auto simp add: re_sub_miss)
  ultimately show ?case using Miss.hyps p by (simp add: re_sub_miss)
qed

lemma sub_identity: "\<not> occurs p s \<Longrightarrow> re_sub p r s = s"
proof (cases p)
  case Nil
  assume "\<not> occurs p s"
  with Nil show ?thesis by (cases s) simp_all
next
  case (Cons a as)
  assume "\<not> occurs p s"
  then show ?thesis unfolding Cons by (induction s) auto
qed

lemma rewrite_Nil: "rewrite [] s = s"
  by (simp add: rewrite_def)

lemma rewrite_Cons: "rewrite ((p, r) # ps) s = rewrite ps (re_sub p r s)"
  by (simp add: rewrite_def)

lemma rewrite_snoc: "rewrite (ps @ [(p, r)]) s = re_sub p r (rewrite ps s)"
  by (simp add: rewrite_def)

lemma compatibleD:
  "compatible R \<Longrightarrow> (q, r') \<in> set R \<Longrightarrow> (p, r) \<in> set R \<Longrightarrow> q \<noteq> [] \<and> inert q r"
  by (force simp add: compatible_def list_all_iff)

lemma rewrite_free:
  assumes c: "compatible R"
  shows "set ps \<subseteq> set R \<Longrightarrow> (q, r') \<in> set ps \<Longrightarrow> \<not> occurs q (rewrite ps s)"
proof (induction ps arbitrary: q r' rule: rev_induct)
  case Nil
  then show ?case by simp
next
  case (snoc x ps)
  obtain p r where x: "x = (p, r)" by (cases x)
  from snoc.prems x have pR: "(p, r) \<in> set R" and qR: "(q, r') \<in> set R" by auto
  from compatibleD[OF c qR pR] have q: "q \<noteq> []" and i: "inert q r" by simp_all
  from compatibleD[OF c pR pR] have p: "p \<noteq> []" by simp
  have "\<forall>t. suffix t (rewrite ps s) \<and> match q t \<longrightarrow> match p t"
  proof (cases "(q, r') \<in> set ps")
    case True
    with snoc.IH snoc.prems(1) have "\<not> occurs q (rewrite ps s)" by auto
    then show ?thesis by (auto simp add: occurs_suffix)
  next
    case False
    with snoc.prems(2) x have "q = p" by auto
    then show ?thesis by simp
  qed
  from sub_free[OF p q i this] show ?case by (simp add: x rewrite_snoc)
qed

lemma rewrite_identity:
  "\<forall>(p, r) \<in> set ps. \<not> occurs p s \<Longrightarrow> rewrite ps s = s"
  by (induction ps) (auto simp add: rewrite_Nil rewrite_Cons sub_identity)

lemma rewrite_idem:
  assumes "compatible R"
  shows "rewrite R (rewrite R s) = rewrite R s"
proof -
  have "\<forall>(p, r) \<in> set R. \<not> occurs p (rewrite R s)"
    using rewrite_free[OF assms subset_refl] by auto
  then show ?thesis by (rule rewrite_identity)
qed

subsection \<open>A block of text in its context\<close>

lemma sub_inert_tail:
  assumes p: "p \<noteq> []"
  shows "\<forall>b2 \<in> set (tails1 b). clash p b2 \<Longrightarrow> re_sub p r (b @ y) = b @ re_sub p r y"
proof (induction b)
  case Nil
  then show ?case by simp
next
  case (Cons c b)
  from Cons.prems have "clash p (c # b)" by simp
  then have "\<not> match p ((c # b) @ y)" by (rule clash_no_match)
  with p Cons show ?case by (simp add: re_sub_miss)
qed

lemma sub_before_block:
  assumes p: "p \<noteq> []"
    and front: "\<forall>p2 \<in> set (tails1 (tl p)). \<not> match p2 t"
  shows "re_sub p r (x @ t) = re_sub p r x @ re_sub p r t"
  using p
proof (induction x rule: scan_induct)
  case Nil
  with p show ?case by (simp add: re_sub_nil)
next
  case (Hit s)
  from Hit.hyps(2) have len: "length p \<le> length s" by (rule match_length)
  from Hit.hyps(2) have "match p (s @ t)" by (rule match_append)
  with p Hit len show ?case by (simp add: re_sub_hit)
next
  case (Miss c cs)
  have "\<not> match p ((c # cs) @ t)"
  proof
    assume "match p ((c # cs) @ t)"
    with Miss.hyps(1) match_split[of p "c # cs" t]
    have l: "length (c # cs) < length p" and m: "match (drop (length (c # cs)) p) t" by auto
    from l have "drop (length cs) (tl p) \<in> set (tails1 (tl p))"
      by (intro drop_in_tails1) simp
    moreover have "drop (length (c # cs)) p = drop (length cs) (tl p)"
      by (simp add: drop_Suc)
    ultimately show False using front m by auto
  qed
  with p Miss show ?case by (simp add: re_sub_miss)
qed

lemma sub_block_inert:
  assumes p: "p \<noteq> []" and i: "inert p b"
  shows "re_sub p r (x @ b @ y) = re_sub p r x @ b @ re_sub p r y"
proof -
  have "\<forall>p2 \<in> set (tails1 (tl p)). \<not> match p2 (b @ y)"
    using inert_front[OF i] p clash_no_match by (cases p) auto
  from sub_before_block[OF p this]
  have "re_sub p r (x @ b @ y) = re_sub p r x @ re_sub p r (b @ y)" .
  also have "re_sub p r (b @ y) = b @ re_sub p r y"
    using sub_inert_tail[OF p inert_inside[OF i]] .
  finally show ?thesis .
qed

lemma sub_block_hit:
  assumes p: "p \<noteq> []" and m: "match p b" and l: "length b = length p"
    and front: "list_all (\<lambda>p2. clash p2 b) (tails1 (tl p))"
  shows "re_sub p r (x @ b @ y) = re_sub p r x @ r @ re_sub p r y"
proof -
  have "\<forall>p2 \<in> set (tails1 (tl p)). \<not> match p2 (b @ y)"
    using front clash_no_match by (auto simp add: list_all_iff)
  from sub_before_block[OF p this]
  have "re_sub p r (x @ b @ y) = re_sub p r x @ re_sub p r (b @ y)" .
  also have "re_sub p r (b @ y) = r @ re_sub p r y"
    using p match_append[OF m, of y] l by (simp add: re_sub_hit)
  finally show ?thesis .
qed

lemma rewrite_block:
  "carry ps b = Some b' \<Longrightarrow> rewrite ps (x @ b @ y) = rewrite ps x @ b' @ rewrite ps y"
proof (induction ps arbitrary: x b y)
  case Nil
  then show ?case by (simp add: rewrite_Nil)
next
  case (Cons rule ps)
  obtain p r where rule: "rule = (p, r)" by (cases rule)
  from Cons.prems rule have p: "p \<noteq> []" by (auto split: if_splits)
  show ?case
  proof (cases "inert p b")
    case True
    with Cons.prems rule p have "carry ps b = Some b'" by simp
    from Cons.IH[OF this] sub_block_inert[OF p True] show ?thesis
      by (simp add: rule rewrite_Cons)
  next
    case False
    with Cons.prems rule p have m: "match p b" and l: "length b = length p"
      and f: "list_all (\<lambda>p2. clash p2 b) (tails1 (tl p))" and c: "carry ps r = Some b'"
      by (auto split: if_splits)
    from Cons.IH[OF c] sub_block_hit[OF p m l f] show ?thesis
      by (simp add: rule rewrite_Cons)
  qed
qed

lemma carry_inert:
  "\<forall>(p, r) \<in> set ps. p \<noteq> [] \<and> inert p b \<Longrightarrow> carry ps b = Some b"
  by (induction ps) auto

lemma compatible_sprint23: "compatible patterns_sprint23"
  by code_simp

lemma compatible_sprint24: "compatible patterns_sprint24"
  by code_simp

section \<open>Files and runs\<close>

subsection \<open>The decoder\<close>

lemma decode_step:
  "utf8_scan b bs = (ok, k) \<Longrightarrow>
   utf8_decode errs (b # bs) =
     (if ok then (case utf8_decode errs (drop k bs) of Inl e \<Rightarrow> Inl e | Inr t \<Rightarrow> Inr (b # take k bs @ t))
      else (case errs of Strict \<Rightarrow> Inl UnicodeDecodeError | Ignore \<Rightarrow> utf8_decode errs (drop k bs)))"
  by (cases ok) simp_all

lemma utf8_decode_ignore: "\<exists>t. utf8_decode Ignore raw = Inr t \<and> subseq t raw"
proof (induction raw rule: length_induct)
  case (1 raw)
  show ?case
  proof (cases raw)
    case Nil
    then show ?thesis by simp
  next
    case (Cons b bs)
    obtain ok k where s: "utf8_scan b bs = (ok, k)" by (cases "utf8_scan b bs")
    have "length (drop k bs) < length raw" using Cons by simp
    with 1 obtain t where t: "utf8_decode Ignore (drop k bs) = Inr t" "subseq t (drop k bs)"
      by blast
    show ?thesis
    proof (cases ok)
      case True
      have "subseq (take k bs @ t) (take k bs @ drop k bs)"
        using t(2) by (simp only: subseq_append')
      then have "subseq (b # take k bs @ t) raw" using Cons by simp
      moreover have "utf8_decode Ignore raw = Inr (b # take k bs @ t)"
        unfolding Cons decode_step[OF s] using True t(1) by simp
      ultimately show ?thesis by blast
    next
      case False
      have "subseq (drop k bs) bs" by (intro suffix_imp_subseq suffix_drop)
      with t(2) have "subseq t bs" by (rule subseq_order.trans)
      then have "subseq t raw" unfolding Cons by (rule list_emb_Cons)
      moreover have "utf8_decode Ignore raw = Inr t"
        unfolding Cons decode_step[OF s] using False t(1) by simp
      ultimately show ?thesis by blast
    qed
  qed
qed


lemma read_text_ignore:
  "\<exists>t. utf8_decode Ignore raw = Inr t \<and> subseq t raw \<and> read_text Ignore raw = Inr (universal_newlines t)"
proof -
  from utf8_decode_ignore obtain t where "utf8_decode Ignore raw = Inr t" "subseq t raw" by blast
  then show ?thesis by (auto simp add: read_text_def)
qed

lemma strict_fails:
  "utf8_decode Strict [CHR ''a'', CHR 0xFF, CHR ''b''] = Inl UnicodeDecodeError
   \<and> utf8_decode Ignore [CHR ''a'', CHR 0xFF, CHR ''b''] = Inr ''ab''"
  by code_simp

subsection \<open>The effect of update_file and of main\<close>

lemma update_file_effect:
  "update_file patterns w p = (apply_effect w p (effect_of patterns w p), changed (effect_of patterns w p))"
  by (cases "files w p")
     (auto simp add: update_file_def try_update_file_def open_read_def write_text_def print_def
        effect_of_def effect_on_def apply_effect_def error_line_def Let_def fun_upd_idem
        split: node.splits sum.splits)















lemma update_file_readable:
  assumes "files w p = Some (Regular raw True writable)" and "read_text Ignore raw = Inr content"
  shows "update_file patterns w p =
     (if rewrite patterns content = content then (w\<lparr>syscalls := syscalls w @ [OpenRead p]\<rparr>, False)
      else if writable then
        (w\<lparr>files := (files w)(p \<mapsto> Regular (encode_text (linesep w) (rewrite patterns content)) True writable),
           syscalls := syscalls w @ [OpenRead p, OpenWrite p]\<rparr>, True)
      else (w\<lparr>stdout := stdout w @ [error_line p (PermissionError (str_path p))],
              syscalls := syscalls w @ [OpenRead p, OpenWrite p]\<rparr>, False))"
  using assms
  by (simp add: update_file_effect effect_of_def effect_on_def apply_effect_def fun_upd_idem)

lemma issued_apply_effect: "issued w (apply_effect w p e) = opens e"
  by (simp add: issued_def apply_effect_def)

lemma read_content_cases:
  "read_content w p =
     (case files w p of
        None \<Rightarrow> Inl (FileNotFoundError (str_path p))
      | Some Directory \<Rightarrow> Inl (IsADirectoryError (str_path p))
      | Some (Regular raw readable writable) \<Rightarrow>
          if readable then read_text Ignore raw else Inl (PermissionError (str_path p)))"
  by (simp add: read_content_def open_read_def split: option.splits node.splits sum.splits)






lemma apply_effect_same: "node_after e = files w p \<Longrightarrow> files (apply_effect w p e) = files w"
  by (simp add: apply_effect_def fun_upd_idem)

lemma card_read:
  "read_content card_world card_path
     = Inr (''import { Badge } '' @ import_text (CHR 0x27) ''badge'' (CHR 0x27) @ ''; // card'')"
proof -
  have "files card_world card_path = Some (Regular card_raw True True)"
    by (simp add: card_world_def card_path_def src_dir_def)
  moreover have "read_text Ignore card_raw
     = Inr (''import { Badge } '' @ import_text (CHR 0x27) ''badge'' (CHR 0x27) @ ''; // card'')"
    by code_simp
  ultimately show ?thesis by (simp add: read_content_cases)
qed





lemma update_file_changed: "snd (update_file patterns w p) = changed (effect_of patterns w p)"
  by (simp add: update_file_effect)











lemma re_sub_length:
  assumes "p \<noteq> []" and "length r \<le> length p"
  shows "length (re_sub p r s) \<le> length s"
  using assms(1)
proof (induction s rule: scan_induct)
  case Nil
  with assms show ?case by (simp add: re_sub_nil)
next
  case (Hit s)
  from Hit.hyps(2) have "length p \<le> length s" by (rule match_length)
  with Hit assms show ?case by (simp add: re_sub_hit)
next
  case (Miss c cs)
  with assms show ?case by (simp add: re_sub_miss)
qed

lemma rewrite_length: "shrinking patterns \<Longrightarrow> length (rewrite patterns s) \<le> length s"
proof (induction patterns arbitrary: s)
  case Nil
  then show ?case by (simp add: rewrite_Nil)
next
  case (Cons rule patterns)
  obtain p r where rule: "rule = (p, r)" by (cases rule)
  from Cons.prems rule have p: "p \<noteq> []" "length r \<le> length p" and sh: "shrinking patterns"
    by (simp_all add: shrinking_def)
  from Cons.IH[OF sh, of "re_sub p r s"] re_sub_length[OF p, of s] show ?case
    by (simp add: rule rewrite_Cons)
qed

lemma shrinking_sprint23: "shrinking patterns_sprint23"
  by code_simp

lemma carry_sprint23_all:
  "list_all (\<lambda>name. list_all (\<lambda>q1. list_all (\<lambda>q2.
      carry patterns_sprint23 (import_text q1 name q2) = Some consolidated) quotes) quotes) names_sprint23"
  by code_simp

lemma carry_sprint23:
  "name \<in> set names_sprint23 \<Longrightarrow> q1 \<in> set quotes \<Longrightarrow> q2 \<in> set quotes \<Longrightarrow>
   carry patterns_sprint23 (import_text q1 name q2) = Some consolidated"
  using carry_sprint23_all unfolding list_all_iff by blast

lemma import_text_length: "length (import_text q1 name q2) = 23 + length name"
  by (simp add: import_text_def import_head_def)

lemma consolidated_length: "length consolidated = 26"
  by (simp add: consolidated_def)

lemma one_import_rewritten:
  assumes "name \<in> set names_sprint23" and "q1 \<in> set quotes" and "q2 \<in> set quotes"
  shows "rewrite patterns_sprint23 (x @ import_text q1 name q2 @ y)
           = rewrite patterns_sprint23 x @ consolidated @ rewrite patterns_sprint23 y"
    and "rewrite patterns_sprint23 (x @ import_text q1 name q2 @ y) \<noteq> x @ import_text q1 name q2 @ y"
proof -
  show eq: "rewrite patterns_sprint23 (x @ import_text q1 name q2 @ y)
           = rewrite patterns_sprint23 x @ consolidated @ rewrite patterns_sprint23 y"
    using carry_sprint23[OF assms] by (rule rewrite_block)
  from assms(1) have "3 < length name" by (auto simp add: names_sprint23_def)
  with rewrite_length[OF shrinking_sprint23, of x] rewrite_length[OF shrinking_sprint23, of y]
  have "length (rewrite patterns_sprint23 x @ consolidated @ rewrite patterns_sprint23 y)
          < length (x @ import_text q1 name q2 @ y)"
    by (simp add: import_text_length consolidated_length)
  with eq show "rewrite patterns_sprint23 (x @ import_text q1 name q2 @ y) \<noteq> x @ import_text q1 name q2 @ y"
    by (metis less_irrefl)
qed


lemma unrelated_text:
  "read_text Ignore (import_text (CHR 0x27) ''unrelated-thing'' (CHR 0x27))
     = Inr (import_text (CHR 0x27) ''unrelated-thing'' (CHR 0x27))"
  "rewrite patterns_sprint23 (import_text (CHR 0x27) ''unrelated-thing'' (CHR 0x27))
     = import_text (CHR 0x27) ''unrelated-thing'' (CHR 0x27)"
  by code_simp+

lemma unrelated_effect:
  assumes "files w p = Some (Regular (import_text (CHR 0x27) ''unrelated-thing'' (CHR 0x27)) readable writable)"
  shows "node_after (effect_of patterns_sprint23 w p) = files w p"
    and "\<not> changed (effect_of patterns_sprint23 w p)"
    and "opens (effect_of patterns_sprint23 w p) = [OpenRead p]"
  using assms unrelated_text by (simp_all add: effect_of_def effect_on_def)

lemma update_file_issued: "issued w (fst (update_file patterns w p)) = opens (effect_of patterns w p)"
  by (simp add: update_file_effect issued_apply_effect)

lemma update_file_files_same:
  "node_after (effect_of patterns w p) = files w p \<Longrightarrow> files (fst (update_file patterns w p)) = files w"
  by (simp add: update_file_effect apply_effect_same)

section \<open>The claims\<close>

subsection \<open>Claim C1\<close>

text \<open>
  C1. The rewrite is idempotent: for every input string and for each script's rule list,
  applying the whole sequence of substitutions twice gives what applying it once gives.
\<close>

theorem rewrite_idempotent:
  "rewrite patterns_sprint23 (rewrite patterns_sprint23 F) = rewrite patterns_sprint23 F
   \<and> rewrite patterns_sprint24 (rewrite patterns_sprint24 F) = rewrite patterns_sprint24 F"
  by (simp add: rewrite_idem compatible_sprint23 compatible_sprint24)

subsection \<open>Claim C3\<close>

lemma carry_dialog_all:
  "list_all (\<lambda>q1. list_all (\<lambda>q2.
      carry patterns_sprint24 (''} '' @ import_text q1 ''dialog'' q2) = Some (''} '' @ consolidated)) quotes) quotes"
  by code_simp

lemma carry_dialog:
  assumes "q1 \<in> set quotes" and "q2 \<in> set quotes"
  shows "carry patterns_sprint24 (''} '' @ import_text q1 ''dialog'' q2) = Some (''} '' @ consolidated)"
  using carry_dialog_all assms unfolding list_all_iff by blast

text \<open>
  C3, as stated: the sprint-2.4 script redirects every from-import of
  \<^verbatim>\<open>'@/components/ui/dialog'\<close> to the consolidated entry point, as it does for
  progress, switch, scroll-area, tabs and dropdown-menu. It does not: a default import
  of dialog is left as it is, where the same import of progress is redirected.
\<close>

theorem dialog_import_not_redirected:
  "rewrite patterns_sprint24 (''import Dialog '' @ import_text (CHR 0x27) ''dialog'' (CHR 0x27) @ '';'')
     = ''import Dialog '' @ import_text (CHR 0x27) ''dialog'' (CHR 0x27) @ '';''
   \<and> rewrite patterns_sprint24 (''import Progress '' @ import_text (CHR 0x27) ''progress'' (CHR 0x27) @ '';'')
     = ''import Progress '' @ consolidated @ '';''"
  by code_simp

text \<open>
  C3, amended: the dialog rule of the sprint-2.4 table is \<^verbatim>\<open>} from ['\"]@/components/ui/dialog['\"]\<close>.
  For every input that holds a from-import of \<^verbatim>\<open>@/components/ui/dialog\<close> (single or
  double quoted) right behind a closing brace and a space, the rewritten content has
  that import redirected to \<^verbatim>\<open>'@jade/ui/components'\<close>; the text before and the text
  behind are rewritten on their own.
\<close>

theorem dialog_after_brace_redirected:
  assumes "q1 \<in> set quotes" and "q2 \<in> set quotes"
  shows "rewrite patterns_sprint24 (x @ (''} '' @ import_text q1 ''dialog'' q2) @ y)
           = rewrite patterns_sprint24 x @ (''} '' @ consolidated) @ rewrite patterns_sprint24 y"
  using carry_dialog[OF assms] by (rule rewrite_block)

theorem dialog_after_brace_redirected_witness:
  "CHR 0x27 \<in> set quotes \<and> CHR 0x22 \<in> set quotes
   \<and> rewrite patterns_sprint24 (''import { Dialog, DialogContent '' @ (''} '' @ import_text (CHR 0x27) ''dialog'' (CHR 0x22)) @ '';'')
       = ''import { Dialog, DialogContent '' @ (''} '' @ consolidated) @ '';''"
proof -
  have a: "CHR 0x27 \<in> set quotes" and b: "CHR 0x22 \<in> set quotes" by (simp_all add: quotes_def)
  have x: "rewrite patterns_sprint24 ''import { Dialog, DialogContent '' = ''import { Dialog, DialogContent ''"
    by code_simp
  have y: "rewrite patterns_sprint24 '';'' = '';''" by code_simp
  from dialog_after_brace_redirected[OF a b, of "''import { Dialog, DialogContent ''" "'';''"] a b x y
  show ?thesis by simp
qed

subsection \<open>Claim C10\<close>

lemma rejects_module_chars: "rejects_module_chars a \<Longrightarrow> module_char e \<Longrightarrow> \<not> accepts a e"
  by (cases a) (auto simp add: list_all_iff)

lemma clash_ext: "clash_ext p h \<Longrightarrow> module_char e \<Longrightarrow> clash p (h @ [e])"
  by (induction p h rule: clash_ext.induct) (auto dest: rejects_module_chars)

lemma spaced_clash:
  "spaced p \<Longrightarrow> CHR '' '' \<notin> set t \<Longrightarrow> q \<in> set quotes \<Longrightarrow> clash p (t @ [q])"
proof (induction p arbitrary: t rule: spaced.induct)
  case (1 c as)
  show ?case
  proof (cases t)
    case Nil
    with 1 show ?thesis by (auto simp add: quotes_def)
  next
    case (Cons x xs)
    with 1 show ?thesis by (auto simp add: quotes_def)
  qed
qed simp_all

lemma tails1_subset: "t \<in> set (tails1 xs) \<Longrightarrow> set t \<subseteq> set xs"
  by (induction xs) auto

lemma spaced_tables:
  "list_all spaced (map fst (patterns_sprint23 @ patterns_sprint24))"
  by code_simp

lemma nonempty_tables:
  "list_all (\<lambda>p. p \<noteq> []) (map fst (patterns_sprint23 @ patterns_sprint24))"
  by code_simp

lemma guard_sprint23_single:
  "list_all (\<lambda>p. list_all (\<lambda>name. guard p (import_head (CHR 0x27) name)) component_names)
     (map fst patterns_sprint23)"
  by code_simp

lemma guard_sprint23_double:
  "list_all (\<lambda>p. list_all (\<lambda>name. guard p (import_head (CHR 0x22) name)) component_names)
     (map fst patterns_sprint23)"
  by code_simp

lemma guard_sprint24_single:
  "list_all (\<lambda>p. list_all (\<lambda>name. guard p (import_head (CHR 0x27) name)) component_names)
     (map fst patterns_sprint24)"
  by code_simp

lemma guard_sprint24_double:
  "list_all (\<lambda>p. list_all (\<lambda>name. guard p (import_head (CHR 0x22) name)) component_names)
     (map fst patterns_sprint24)"
  by code_simp

lemma guard_tables:
  assumes "p \<in> set (map fst (patterns_sprint23 @ patterns_sprint24))"
    and "q1 \<in> set quotes" and "name \<in> set component_names"
  shows "guard p (import_head q1 name)"
proof -
  from assms(2) have "q1 = CHR 0x27 \<or> q1 = CHR 0x22" by (simp add: quotes_def)
  moreover from assms(1) have "p \<in> set (map fst patterns_sprint23) \<or> p \<in> set (map fst patterns_sprint24)"
    by auto
  ultimately show ?thesis
    using guard_sprint23_single guard_sprint23_double guard_sprint24_single guard_sprint24_double
      assms(3) unfolding list_all_iff by blast
qed

lemma guarded_inert:
  assumes g: "guard p h" and s: "spaced p" and m: "module_char e"
    and e: "CHR '' '' \<notin> set (e # es)" and q: "q2 \<in> set quotes"
  shows "inert p (h @ (e # es) @ [q2])"
proof -
  have eq: "h @ (e # es) @ [q2] = (h @ [e]) @ (es @ [q2])" by simp
  have front: "list_all (\<lambda>p2. clash p2 (h @ (e # es) @ [q2])) (tails1 p)"
    using g m unfolding guard_def eq list_all_iff by (blast intro: clash_append clash_ext)
  have "clash p b2" if "b2 \<in> set (tails1 (h @ (e # es) @ [q2]))" for b2
  proof -
    from that consider h2 where "h2 \<in> set (tails1 h)" "b2 = h2 @ (e # es) @ [q2]"
      | t where "t \<in> set (tails1 (e # es))" "b2 = t @ [q2]"
      | "b2 = [q2]"
      by (auto simp add: tails1_append)
    then show ?thesis
    proof cases
      case 1
      from g 1(1) m have "clash p (h2 @ [e])" by (simp add: guard_def list_all_iff clash_ext)
      then have "clash p ((h2 @ [e]) @ (es @ [q2]))" by (rule clash_append)
      with 1(2) show ?thesis by simp
    next
      case 2
      from tails1_subset[OF 2(1)] e have "CHR '' '' \<notin> set t" by auto
      from spaced_clash[OF s this q] 2(2) show ?thesis by simp
    next
      case 3
      from spaced_clash[OF s _ q, of "[]"] 3 show ?thesis by simp
    qed
  qed
  then have "list_all (\<lambda>b2. clash p b2) (tails1 (h @ (e # es) @ [q2]))"
    by (simp add: list_all_iff)
  with front show ?thesis by (simp add: inert_def)
qed

lemma inert_occurs: "p \<noteq> [] \<Longrightarrow> inert p b \<Longrightarrow> \<not> occurs p b"
proof -
  assume p: "p \<noteq> []" and i: "inert p b"
  have "\<not> match p (b2 @ [])" if "b2 \<in> set (tails1 b)" for b2
    using inert_inside[OF i] that clash_no_match by blast
  moreover from p have "\<not> match p []" by (cases p) simp_all
  ultimately show ?thesis using occurs_append[of p b "[]"] by auto
qed

lemma extended_inert:
  assumes n: "name \<in> set component_names"
    and ext: "ext \<noteq> []" "\<forall>c \<in> set ext. module_char c"
    and q1: "q1 \<in> set quotes" and q2: "q2 \<in> set quotes"
    and p: "p \<in> set (map fst (patterns_sprint23 @ patterns_sprint24))"
  shows "p \<noteq> [] \<and> inert p (import_text q1 (name @ ext) q2)"
proof -
  from ext(1) obtain e es where ees: "ext = e # es" by (cases ext) auto
  with ext(2) have e: "module_char e" by auto
  from guard_tables[OF p q1 n] have g: "guard p (import_head q1 name)" .
  from spaced_tables p have s: "spaced p" unfolding list_all_iff by blast
  from nonempty_tables p have ne: "p \<noteq> []" unfolding list_all_iff by blast
  from ext(2) ees have sp: "CHR '' '' \<notin> set (e # es)" by (auto simp add: module_char_def)
  have "import_text q1 (name @ ext) q2 = import_head q1 name @ (e # es) @ [q2]"
    by (simp add: import_text_def import_head_def ees)
  with guarded_inert[OF g s e sp q2] ne show ?thesis by simp
qed

lemma extended_import_inert:
  assumes "name \<in> set component_names"
    and "ext \<noteq> []" and "\<forall>c \<in> set ext. module_char c"
    and "q1 \<in> set quotes" and "q2 \<in> set quotes"
    and "patterns = patterns_sprint23 \<or> patterns = patterns_sprint24"
  shows "(\<forall>(p, r) \<in> set patterns. \<not> occurs p (import_text q1 (name @ ext) q2))
       \<and> rewrite patterns (x @ import_text q1 (name @ ext) q2 @ y)
           = rewrite patterns x @ import_text q1 (name @ ext) q2 @ rewrite patterns y"
proof -
  have i: "p \<noteq> [] \<and> inert p (import_text q1 (name @ ext) q2)" if "(p, r) \<in> set patterns" for p r
  proof -
    from that assms(6) have "p \<in> set (map fst (patterns_sprint23 @ patterns_sprint24))" by force
    from extended_inert[OF assms(1-5) this] show ?thesis .
  qed
  then have "carry patterns (import_text q1 (name @ ext) q2) = Some (import_text q1 (name @ ext) q2)"
    by (intro carry_inert) auto
  then have "rewrite patterns (x @ import_text q1 (name @ ext) q2 @ y)
           = rewrite patterns x @ import_text q1 (name @ ext) q2 @ rewrite patterns y"
    by (rule rewrite_block)
  moreover have "\<forall>(p, r) \<in> set patterns. \<not> occurs p (import_text q1 (name @ ext) q2)"
    using i inert_occurs by blast
  ultimately show ?thesis by simp
qed


lemma only_quotes: "only_quotes a \<Longrightarrow> e \<notin> set quotes \<Longrightarrow> \<not> accepts a e"
  by (cases a) (auto simp add: list_all_iff)

lemma stops_at_quote: "stops_at_quote p h \<Longrightarrow> e \<notin> set quotes \<Longrightarrow> \<not> match p (h @ e # rest)"
  by (induction p h rule: stops_at_quote.induct) (auto dest: only_quotes)

lemma stops_sprint23:
  "list_all (\<lambda>p. list_all (\<lambda>name. list_all (\<lambda>q1.
      stops_at_quote p (import_head q1 name) \<and> stops_at_quote p (''} '' @ import_head q1 name))
        quotes) component_names) (map fst patterns_sprint23)"
  by code_simp

lemma stops_sprint24:
  "list_all (\<lambda>p. list_all (\<lambda>name. list_all (\<lambda>q1.
      stops_at_quote p (import_head q1 name) \<and> stops_at_quote p (''} '' @ import_head q1 name))
        quotes) component_names) (map fst patterns_sprint24)"
  by code_simp

lemma stops_tables:
  assumes "(p, r) \<in> set (patterns_sprint23 @ patterns_sprint24)"
    and "name \<in> set component_names" and "q1 \<in> set quotes"
  shows "stops_at_quote p (import_head q1 name) \<and> stops_at_quote p (''} '' @ import_head q1 name)"
proof -
  from assms(1) have "p \<in> set (map fst patterns_sprint23) \<or> p \<in> set (map fst patterns_sprint24)"
    by force
  then show ?thesis
    using stops_sprint23 stops_sprint24 assms(2,3) unfolding list_all_iff by blast
qed

text \<open>
  C10. Every pattern asks for a quote character right behind the component name: no
  pattern of either table matches the text of an import of a listed component, with or
  without a closing brace before it, when the name is followed by a character that is
  no quote. So an import of a module path that extends a listed component name by one
  or more characters of a module path (as \<^verbatim>\<open>badge/index\<close>, \<^verbatim>\<open>selector\<close>, \<^verbatim>\<open>tabs-extra\<close>)
  holds no match of any pattern, and wherever it stands in a file, both scripts leave
  it as it is: the text before it and the text behind it are rewritten on their own.
\<close>

theorem extended_names_untouched:
  "(name \<in> set component_names \<and> q1 \<in> set quotes \<and> e \<notin> set quotes
      \<and> (p, r) \<in> set (patterns_sprint23 @ patterns_sprint24) \<longrightarrow>
      \<not> match p (import_head q1 name @ e # rest)
      \<and> \<not> match p (''} '' @ import_head q1 name @ e # rest))
   \<and> (name \<in> set component_names \<and> ext \<noteq> [] \<and> (\<forall>c \<in> set ext. module_char c)
        \<and> q1 \<in> set quotes \<and> q2 \<in> set quotes
        \<and> (patterns = patterns_sprint23 \<or> patterns = patterns_sprint24) \<longrightarrow>
        (\<forall>(p, r) \<in> set patterns. \<not> occurs p (import_text q1 (name @ ext) q2))
        \<and> rewrite patterns (x @ import_text q1 (name @ ext) q2 @ y)
            = rewrite patterns x @ import_text q1 (name @ ext) q2 @ rewrite patterns y)"
proof (intro conjI impI)
  assume a: "name \<in> set component_names \<and> q1 \<in> set quotes \<and> e \<notin> set quotes
      \<and> (p, r) \<in> set (patterns_sprint23 @ patterns_sprint24)"
  then have s: "stops_at_quote p (import_head q1 name)"
    "stops_at_quote p (''} '' @ import_head q1 name)"
    using stops_tables[of p r name q1] by blast+
  from a have e: "e \<notin> set quotes" by blast
  from stops_at_quote[OF s(1) e] show "\<not> match p (import_head q1 name @ e # rest)" .
  from stops_at_quote[OF s(2) e, of rest] show "\<not> match p (''} '' @ import_head q1 name @ e # rest)"
    by simp
next
  assume a: "name \<in> set component_names \<and> ext \<noteq> [] \<and> (\<forall>c \<in> set ext. module_char c)
        \<and> q1 \<in> set quotes \<and> q2 \<in> set quotes
        \<and> (patterns = patterns_sprint23 \<or> patterns = patterns_sprint24)"
  then have h: "name \<in> set component_names" "ext \<noteq> []" "\<forall>c \<in> set ext. module_char c"
    "q1 \<in> set quotes" "q2 \<in> set quotes" "patterns = patterns_sprint23 \<or> patterns = patterns_sprint24"
    by blast+
  note i = extended_import_inert[OF h, of x y]
  from i show "\<forall>(p, r) \<in> set patterns. \<not> occurs p (import_text q1 (name @ ext) q2)"
    by (rule conjunct1)
  from i show "rewrite patterns (x @ import_text q1 (name @ ext) q2 @ y)
            = rewrite patterns x @ import_text q1 (name @ ext) q2 @ rewrite patterns y"
    by (rule conjunct2)
qed

theorem extended_names_untouched_witness:
  "''badge'' \<in> set component_names \<and> ''select'' \<in> set component_names \<and> ''tabs'' \<in> set component_names
   \<and> CHR 0x27 \<in> set quotes \<and> CHR 0x22 \<in> set quotes \<and> CHR ''/'' \<notin> set quotes
   \<and> (legacy_import ''badge'', consolidated) \<in> set (patterns_sprint23 @ patterns_sprint24)
   \<and> ''/index'' \<noteq> [] \<and> list_all module_char ''/index''
   \<and> ''or'' \<noteq> [] \<and> list_all module_char ''or''
   \<and> ''-extra'' \<noteq> [] \<and> list_all module_char ''-extra''
   \<and> \<not> match (legacy_import ''badge'') (import_head (CHR 0x27) ''badge'' @ CHR ''/'' # ''index'' @ [CHR 0x27])
   \<and> rewrite patterns_sprint23 (''import B '' @ import_text (CHR 0x27) (''badge'' @ ''/index'') (CHR 0x27) @ '';'')
       = ''import B '' @ import_text (CHR 0x27) (''badge'' @ ''/index'') (CHR 0x27) @ '';''
   \<and> rewrite patterns_sprint23 (''import { S } '' @ import_text (CHR 0x22) (''select'' @ ''or'') (CHR 0x22) @ '';'')
       = ''import { S } '' @ import_text (CHR 0x22) (''select'' @ ''or'') (CHR 0x22) @ '';''
   \<and> rewrite patterns_sprint24 (''import { T } '' @ import_text (CHR 0x27) (''tabs'' @ ''-extra'') (CHR 0x27) @ '';'')
       = ''import { T } '' @ import_text (CHR 0x27) (''tabs'' @ ''-extra'') (CHR 0x27) @ '';''"
proof -
  have n: "''badge'' \<in> set component_names" "''select'' \<in> set component_names"
    "''tabs'' \<in> set component_names"
    by (simp_all add: component_names_def)
  have q: "CHR 0x27 \<in> set quotes" "CHR 0x22 \<in> set quotes" "CHR ''/'' \<notin> set quotes"
    by (simp_all add: quotes_def)
  have p: "(legacy_import ''badge'', consolidated) \<in> set (patterns_sprint23 @ patterns_sprint24)"
    by (simp add: patterns_sprint23_def)
  have e: "''/index'' \<noteq> []" "''or'' \<noteq> []" "''-extra'' \<noteq> []" by simp_all
  have m: "\<forall>c \<in> set ''/index''. module_char c" "\<forall>c \<in> set ''or''. module_char c"
    "\<forall>c \<in> set ''-extra''. module_char c"
    by (simp_all add: module_char_def)
  have ml: "list_all module_char ''/index''" "list_all module_char ''or''" "list_all module_char ''-extra''"
    using m by (simp_all add: list_all_iff)
  have x: "rewrite patterns_sprint23 ''import B '' = ''import B ''"
    "rewrite patterns_sprint23 ''import { S } '' = ''import { S } ''"
    "rewrite patterns_sprint24 ''import { T } '' = ''import { T } ''"
    "rewrite patterns_sprint23 '';'' = '';''" "rewrite patterns_sprint24 '';'' = '';''"
    by code_simp+
  have c1: "\<not> match (legacy_import ''badge'') (import_head (CHR 0x27) ''badge'' @ CHR ''/'' # ''index'' @ [CHR 0x27])"
    using extended_names_untouched[of "''badge''" "CHR 0x27" "CHR ''/''" "legacy_import ''badge''" consolidated
        "''index'' @ [CHR 0x27]", THEN conjunct1] n(1) q(1,3) p
    by blast
  have c2: "rewrite patterns_sprint23 (''import B '' @ import_text (CHR 0x27) (''badge'' @ ''/index'') (CHR 0x27) @ '';'')
       = ''import B '' @ import_text (CHR 0x27) (''badge'' @ ''/index'') (CHR 0x27) @ '';''"
    using extended_names_untouched[of "''badge''" "CHR 0x27" _ _ _ _ "''/index''" "CHR 0x27" patterns_sprint23
        "''import B ''" "'';''", THEN conjunct2] n(1) e(1) m(1) q(1)
    by (simp only: x) blast
  have c3: "rewrite patterns_sprint23 (''import { S } '' @ import_text (CHR 0x22) (''select'' @ ''or'') (CHR 0x22) @ '';'')
       = ''import { S } '' @ import_text (CHR 0x22) (''select'' @ ''or'') (CHR 0x22) @ '';''"
    using extended_names_untouched[of "''select''" "CHR 0x22" _ _ _ _ "''or''" "CHR 0x22" patterns_sprint23
        "''import { S } ''" "'';''", THEN conjunct2] n(2) e(2) m(2) q(2)
    by (simp only: x) blast
  have c4: "rewrite patterns_sprint24 (''import { T } '' @ import_text (CHR 0x27) (''tabs'' @ ''-extra'') (CHR 0x27) @ '';'')
       = ''import { T } '' @ import_text (CHR 0x27) (''tabs'' @ ''-extra'') (CHR 0x27) @ '';''"
    using extended_names_untouched[of "''tabs''" "CHR 0x27" _ _ _ _ "''-extra''" "CHR 0x27" patterns_sprint24
        "''import { T } ''" "'';''", THEN conjunct2] n(3) e(3) m(3) q(1)
    by (simp only: x) blast
  show ?thesis by (intro conjI) (fact n q p e ml c1 c2 c3 c4)+
qed

subsection \<open>Claim C5\<close>



subsection \<open>Claim C8\<close>

text \<open>
  C8. Reading a file never fails because of malformed bytes: for every readable file,
  whatever its bytes, the lenient decoder returns a text, made of the bytes of the file
  without those that cannot be decoded, and \<^verbatim>\<open>update_file\<close> goes on with the
  substitution on that text; the only exception left is that of a refused write.
\<close>

theorem decode_leniency:
  assumes "files w p = Some (Regular raw True writable)"
  shows "\<exists>t. utf8_decode Ignore raw = Inr t \<and> subseq t raw
           \<and> read_text Ignore raw = Inr (universal_newlines t)
           \<and> update_file patterns w p =
               (if rewrite patterns (universal_newlines t) = universal_newlines t
                  then (w\<lparr>syscalls := syscalls w @ [OpenRead p]\<rparr>, False)
                else if writable then
                  (w\<lparr>files := (files w)(p \<mapsto> Regular (encode_text (linesep w)
                         (rewrite patterns (universal_newlines t))) True writable),
                     syscalls := syscalls w @ [OpenRead p, OpenWrite p]\<rparr>, True)
                else (w\<lparr>stdout := stdout w @ [error_line p (PermissionError (str_path p))],
                        syscalls := syscalls w @ [OpenRead p, OpenWrite p]\<rparr>, False))"
proof -
  from read_text_ignore obtain t where t: "utf8_decode Ignore raw = Inr t" "subseq t raw"
    "read_text Ignore raw = Inr (universal_newlines t)" by blast
  from update_file_readable[OF assms t(3)] t show ?thesis by blast
qed

theorem decode_leniency_witness:
  "files card_world card_path = Some (Regular card_raw True True)
   \<and> utf8_decode Strict card_raw = Inl UnicodeDecodeError
   \<and> update_file patterns_sprint23 card_world card_path =
       (card_world\<lparr>files := (files card_world)(card_path \<mapsto>
            Regular (''import { Badge } '' @ consolidated @ ''; // card'') True True),
          syscalls := [OpenRead card_path, OpenWrite card_path]\<rparr>, True)"
proof -
  have h: "files card_world card_path = Some (Regular card_raw True True)"
    by (simp add: card_world_def card_path_def src_dir_def)
  have s: "utf8_decode Strict card_raw = Inl UnicodeDecodeError" by code_simp
  have d: "utf8_decode Ignore card_raw
             = Inr (''import { Badge } '' @ import_text (CHR 0x27) ''badge'' (CHR 0x27) @ ''; // card'')"
    by code_simp
  have n: "universal_newlines (''import { Badge } '' @ import_text (CHR 0x27) ''badge'' (CHR 0x27) @ ''; // card'')
             = ''import { Badge } '' @ import_text (CHR 0x27) ''badge'' (CHR 0x27) @ ''; // card''"
    by code_simp
  have r: "rewrite patterns_sprint23 (''import { Badge } '' @ import_text (CHR 0x27) ''badge'' (CHR 0x27) @ ''; // card'')
             = ''import { Badge } '' @ consolidated @ ''; // card''"
    by code_simp
  have ne: "''import { Badge } '' @ consolidated @ ''; // card''
              \<noteq> ''import { Badge } '' @ import_text (CHR 0x27) ''badge'' (CHR 0x27) @ ''; // card''"
    by (simp add: consolidated_def import_text_def import_head_def)
  have e: "encode_text [CHR 0x0A] (''import { Badge } '' @ consolidated @ ''; // card'')
             = ''import { Badge } '' @ consolidated @ ''; // card''"
    by code_simp
  have l: "linesep card_world = [CHR 0x0A]" "syscalls card_world = []"
    by (simp_all add: card_world_def)
  from decode_leniency[OF h, of patterns_sprint23] obtain t where
    t: "utf8_decode Ignore card_raw = Inr t"
    and u: "update_file patterns_sprint23 card_world card_path =
               (if rewrite patterns_sprint23 (universal_newlines t) = universal_newlines t
                  then (card_world\<lparr>syscalls := syscalls card_world @ [OpenRead card_path]\<rparr>, False)
                else if True then
                  (card_world\<lparr>files := (files card_world)(card_path \<mapsto> Regular (encode_text (linesep card_world)
                         (rewrite patterns_sprint23 (universal_newlines t))) True True),
                     syscalls := syscalls card_world @ [OpenRead card_path, OpenWrite card_path]\<rparr>, True)
                else (card_world\<lparr>stdout := stdout card_world @ [error_line card_path (PermissionError (str_path card_path))],
                        syscalls := syscalls card_world @ [OpenRead card_path, OpenWrite card_path]\<rparr>, False))"
    by blast
  from t d have "t = ''import { Badge } '' @ import_text (CHR 0x27) ''badge'' (CHR 0x27) @ ''; // card''"
    by simp
  with u have "update_file patterns_sprint23 card_world card_path =
       (card_world\<lparr>files := (files card_world)(card_path \<mapsto>
            Regular (''import { Badge } '' @ consolidated @ ''; // card'') True True),
          syscalls := [OpenRead card_path, OpenWrite card_path]\<rparr>, True)"
    using ne by (simp only: n r e l if_False if_True append_Nil)
  with h s show ?thesis by blast
qed

subsection \<open>Claim C2\<close>



subsection \<open>Claim C4\<close>



subsection \<open>Claim C9\<close>



subsection \<open>Claim C6\<close>

text \<open>
  C6. Under the sprint-2.3 table, a file (readable and writable) whose content holds
  \<^verbatim>\<open>from '@/components/ui/badge'\<close>, with any text before and behind it, is written
  back with that substring replaced by \<^verbatim>\<open>from '@jade/ui/components'\<close> (the text before
  and the text behind rewritten on their own), and \<^verbatim>\<open>update_file\<close> returns \<^verbatim>\<open>True\<close>. A
  file that holds only \<^verbatim>\<open>from '@/components/ui/unrelated-thing'\<close> is reported unchanged:
  \<^verbatim>\<open>update_file\<close> returns \<^verbatim>\<open>False\<close>, the file system is as before, no write is issued.
\<close>

theorem badge_scenario:
  "(files w p = Some (Regular raw True True)
      \<and> read_text Ignore raw = Inr (x @ import_text (CHR 0x27) ''badge'' (CHR 0x27) @ y) \<longrightarrow>
      update_file patterns_sprint23 w p =
        (w\<lparr>files := (files w)(p \<mapsto> Regular (encode_text (linesep w)
               (rewrite patterns_sprint23 x @ consolidated @ rewrite patterns_sprint23 y)) True True),
           syscalls := syscalls w @ [OpenRead p, OpenWrite p]\<rparr>, True))
   \<and> (files w p = Some (Regular (import_text (CHR 0x27) ''unrelated-thing'' (CHR 0x27)) readable writable) \<longrightarrow>
        snd (update_file patterns_sprint23 w p) = False
        \<and> files (fst (update_file patterns_sprint23 w p)) = files w
        \<and> OpenWrite p \<notin> set (issued w (fst (update_file patterns_sprint23 w p))))"
proof (intro conjI impI)
  assume a: "files w p = Some (Regular raw True True)
      \<and> read_text Ignore raw = Inr (x @ import_text (CHR 0x27) ''badge'' (CHR 0x27) @ y)"
  have n: "''badge'' \<in> set names_sprint23" and q: "CHR 0x27 \<in> set quotes"
    by (simp_all add: names_sprint23_def quotes_def)
  note r = one_import_rewritten[OF n q q, of x y]
  from a have f: "files w p = Some (Regular raw True True)"
    and t: "read_text Ignore raw = Inr (x @ import_text (CHR 0x27) ''badge'' (CHR 0x27) @ y)"
    by blast+
  from update_file_readable[OF f t, of patterns_sprint23] r
  show "update_file patterns_sprint23 w p =
        (w\<lparr>files := (files w)(p \<mapsto> Regular (encode_text (linesep w)
               (rewrite patterns_sprint23 x @ consolidated @ rewrite patterns_sprint23 y)) True True),
           syscalls := syscalls w @ [OpenRead p, OpenWrite p]\<rparr>, True)"
    by simp
next
  assume a: "files w p = Some (Regular (import_text (CHR 0x27) ''unrelated-thing'' (CHR 0x27)) readable writable)"
  note u = unrelated_effect[OF a]
  from u(2) show "snd (update_file patterns_sprint23 w p) = False"
    by (simp add: update_file_changed)
  from u(1) show "files (fst (update_file patterns_sprint23 w p)) = files w"
    by (rule update_file_files_same)
  from u(3) show "OpenWrite p \<notin> set (issued w (fst (update_file patterns_sprint23 w p)))"
    by (simp add: update_file_issued)
qed

subsection \<open>Claim C7\<close>


theorem badge_scenario_witness:
  "files card_world card_path = Some (Regular card_raw True True)
   \<and> read_text Ignore card_raw
        = Inr (''import { Badge } '' @ import_text (CHR 0x27) ''badge'' (CHR 0x27) @ ''; // card'')
   \<and> update_file patterns_sprint23 card_world card_path =
        (card_world\<lparr>files := (files card_world)(card_path \<mapsto> Regular (encode_text (linesep card_world)
               (rewrite patterns_sprint23 ''import { Badge } '' @ consolidated
                  @ rewrite patterns_sprint23 ''; // card'')) True True),
           syscalls := syscalls card_world @ [OpenRead card_path, OpenWrite card_path]\<rparr>, True)
   \<and> files form_world other_path
        = Some (Regular (import_text (CHR 0x27) ''unrelated-thing'' (CHR 0x27)) True True)
   \<and> snd (update_file patterns_sprint23 form_world other_path) = False
   \<and> files (fst (update_file patterns_sprint23 form_world other_path)) = files form_world
   \<and> OpenWrite other_path \<notin> set (issued form_world (fst (update_file patterns_sprint23 form_world other_path)))"
proof -
  have f: "files card_world card_path = Some (Regular card_raw True True)" by code_simp
  have t: "read_text Ignore card_raw
        = Inr (''import { Badge } '' @ import_text (CHR 0x27) ''badge'' (CHR 0x27) @ ''; // card'')"
    by code_simp
  have g: "files form_world other_path
        = Some (Regular (import_text (CHR 0x27) ''unrelated-thing'' (CHR 0x27)) True True)"
    by code_simp
  note a = badge_scenario[of card_world card_path card_raw "''import { Badge } ''" "''; // card''",
      THEN conjunct1, THEN mp, OF conjI[OF f t]]
  note b = badge_scenario[of form_world other_path _ _ _ True True, THEN conjunct2, THEN mp, OF g]
  note b1 = b[THEN conjunct1] and b2 = b[THEN conjunct2, THEN conjunct1]
    and b3 = b[THEN conjunct2, THEN conjunct2]
  show ?thesis by (intro conjI) (fact f t a g b1 b2 b3)+
qed


end
